theory Spec2Isabelle
  imports Complex_Main "HOL-Library.Multiset"
begin

section \<open>Exceptions\<close>

text \<open>
  The exception classes that matter to \<^verbatim>\<open>simple_async_scan.py\<close>, with Python's class
  hierarchy written out: \<open>mro c\<close> lists \<open>c\<close> and its base classes.
  \<open>AsyncioTimeoutError\<close> is \<^verbatim>\<open>asyncio.TimeoutError\<close>, \<open>GaiError\<close> is
  \<^verbatim>\<open>socket.gaierror\<close>. The scanner is read with the asyncio of Python 3.7 to 3.9, whose
  \<^verbatim>\<open>open_connection\<close> still takes the \<^verbatim>\<open>loop\<close> argument the source passes.
\<close>

datatype exn =
    BaseException
  | Exception
  | OSError
  | ConnectionError
  | ConnectionRefusedError
  | GaiError
  | AsyncioTimeoutError
  | ValueError
  | UnicodeError
  | ArithmeticError
  | OverflowError
  | TypeError

fun mro :: "exn \<Rightarrow> exn list" where
  "mro BaseException = [BaseException]"
| "mro Exception = [Exception, BaseException]"
| "mro OSError = [OSError, Exception, BaseException]"
| "mro ConnectionError = [ConnectionError, OSError, Exception, BaseException]"
| "mro ConnectionRefusedError =
     [ConnectionRefusedError, ConnectionError, OSError, Exception, BaseException]"
| "mro GaiError = [GaiError, OSError, Exception, BaseException]"
| "mro AsyncioTimeoutError = [AsyncioTimeoutError, Exception, BaseException]"
| "mro ValueError = [ValueError, Exception, BaseException]"
| "mro UnicodeError = [UnicodeError, ValueError, Exception, BaseException]"
| "mro ArithmeticError = [ArithmeticError, Exception, BaseException]"
| "mro OverflowError = [OverflowError, ArithmeticError, Exception, BaseException]"
| "mro TypeError = [TypeError, Exception, BaseException]"

definition isinstance :: "exn \<Rightarrow> exn \<Rightarrow> bool" where
  "isinstance e c = (c \<in> set (mro e))"

text \<open>
  \<^verbatim>\<open>contextlib.suppress(*classes)\<close> swallows an exception raised in its block when the
  exception is an instance of one of the classes, and lets any other through.
\<close>

definition suppress :: "exn list \<Rightarrow> exn \<Rightarrow> bool" where
  "suppress classes e = list_ex (isinstance e) classes"

section \<open>Awaitables, connections and the probe\<close>

text \<open>
  An awaitable either resolves after some time on the event loop's clock (seconds) with a
  value or an exception, or never resolves. What a TCP handshake with a given address and
  port does is the environment's choice.
\<close>

datatype 'a awaitable = Resolves real 'a | Never

datatype handshake = Accepted | Failed exn

text \<open>
  A reader/writer pair is known by the peer it is connected to. How long the connection
  behind a pair lives once the pair is dropped is the interpreter's business (object
  lifetime and asyncio's finalizers) and is not part of this model.
\<close>

record stream =
  peer_host :: string
  peer_port :: int

text \<open>
  \<^verbatim>\<open>asyncio.open_connection(host, port)\<close>: on a completed handshake it returns a
  reader/writer pair over the connection to that host and port.
\<close>

definition open_connection :: "handshake awaitable \<Rightarrow> string \<Rightarrow> int \<Rightarrow> (exn + stream) awaitable" where
  "open_connection h host port =
     (case h of
        Never \<Rightarrow> Never
      | Resolves d Accepted \<Rightarrow>
          Resolves d (Inr \<lparr>peer_host = host, peer_port = port\<rparr>)
      | Resolves d (Failed e) \<Rightarrow> Resolves d (Inl e))"

text \<open>
  \<^verbatim>\<open>asyncio.wait_for(aw, timeout)\<close>: the result of \<open>aw\<close> when it is there once the
  timeout has elapsed, else \<open>aw\<close> is cancelled and \<^verbatim>\<open>asyncio.TimeoutError\<close> is raised.
  The pair is the time spent and the outcome; cancellation takes no time here.
\<close>

definition wait_for :: "(exn + 'a) awaitable \<Rightarrow> real \<Rightarrow> real \<times> (exn + 'a)" where
  "wait_for aw timeout =
     (case aw of
        Resolves d r \<Rightarrow> if d \<le> timeout then (d, r) else (timeout, Inl AsyncioTimeoutError)
      | Never \<Rightarrow> (timeout, Inl AsyncioTimeoutError))"

datatype port_state = Open | Closed

type_synonym probe_outcome = "string \<times> int \<times> port_state"

text \<open>
  One run of the probe coroutine: the time it took, the streams it obtained, and what it
  returns or raises.
\<close>

record probe_run =
  elapsed :: real
  streams :: "stream list"
  returned :: "exn + probe_outcome"

text \<open>
  \<^verbatim>\<open>AsyncTCPScanner.__tcp_connection\<close> (lines 44 to 55). \<open>port_state\<close> is set to
  \<^verbatim>\<open>'closed'\<close> before the await and to \<^verbatim>\<open>'open'\<close> after it; the pair that
  \<^verbatim>\<open>open_connection\<close> returns is not bound to a name and no method of it is called.
\<close>

definition tcp_connection :: "handshake awaitable \<Rightarrow> string \<Rightarrow> int \<Rightarrow> probe_run" where
  "tcp_connection h ip_address port =
     (let port_state = Closed;
          (t, r) = wait_for (open_connection h ip_address port) 3
      in case r of
           Inr conn \<Rightarrow>
             \<lparr>elapsed = t, streams = [conn], returned = Inr (ip_address, port, Open)\<rparr>
         | Inl e \<Rightarrow>
             if suppress [ConnectionRefusedError, AsyncioTimeoutError, OSError] e
             then \<lparr>elapsed = t, streams = [], returned = Inr (ip_address, port, port_state)\<rparr>
             else \<lparr>elapsed = t, streams = [], returned = Inl e\<rparr>)"

section \<open>Iterables\<close>

text \<open>
  The constructor takes any \<^verbatim>\<open>Iterable\<close>. A sequence (list, tuple) can be iterated any
  number of times; an iterator or generator is single-pass: a \<^verbatim>\<open>for\<close> loop over it
  yields what is left and leaves it exhausted. \<open>iterate\<close> is one complete \<^verbatim>\<open>for\<close>
  loop: the items it yields and the iterable afterwards.
\<close>

datatype 'a iterable = Sequence "'a list" | Iterator "'a list"

fun iterate :: "'a iterable \<Rightarrow> 'a list \<times> 'a iterable" where
  "iterate (Sequence xs) = (xs, Sequence xs)"
| "iterate (Iterator xs) = (xs, Iterator [])"

section \<open>The scan engine\<close>

text \<open>
  An observer is known by its identity; what its \<^verbatim>\<open>update\<close> does with the five
  arguments is outside the engine. The world records each call of \<^verbatim>\<open>update\<close> and
  says whether the call returns (\<open>None\<close>) or raises. An observer's \<^verbatim>\<open>update\<close> is
  taken not to touch the engine's fields.
\<close>

type_synonym observer = nat

type_synonym notification =
  "string iterable \<times> int iterable \<times> probe_outcome list option \<times> real option \<times> real option"

record scanner =
  target_addresses :: "string iterable"
  ports :: "int iterable"
  start_time :: "real option"
  end_time :: "real option"
  scan_results :: "probe_outcome list option"
  observers :: "observer list"

text \<open>
  The world outside the engine: \<open>clock w n\<close> is what the \<open>n\<close>-th call of
  \<^verbatim>\<open>time.time()\<close> returns, \<open>net w k host port\<close> is what the handshake of the \<open>k\<close>-th
  connection attempt does, \<open>behaviour w ob n\<close> is what observer \<open>ob\<close> does when
  notified with \<open>n\<close>; \<open>reads\<close> and \<open>dialled\<close> count the calls and attempts made so
  far, \<open>updates\<close> is the log of the notifications delivered.
\<close>

record world =
  clock :: "nat \<Rightarrow> real"
  reads :: nat
  net :: "nat \<Rightarrow> string \<Rightarrow> int \<Rightarrow> handshake awaitable"
  dialled :: nat
  behaviour :: "observer \<Rightarrow> notification \<Rightarrow> exn option"
  updates :: "(observer \<times> notification) list"

definition time_time :: "world \<Rightarrow> real \<times> world" where
  "time_time w = (clock w (reads w), w\<lparr>reads := Suc (reads w)\<rparr>)"

text \<open>\<^verbatim>\<open>AsyncTCPScanner.__init__\<close> (lines 13 to 19).\<close>

definition init :: "string iterable \<Rightarrow> int iterable \<Rightarrow> scanner" where
  "init targets prts =
     \<lparr>target_addresses = targets, ports = prts, start_time = None, end_time = None,
      scan_results = None, observers = []\<rparr>"

text \<open>\<^verbatim>\<open>AsyncTCPScanner.register\<close> (lines 21 and 22).\<close>

definition register :: "scanner \<Rightarrow> observer \<Rightarrow> scanner" where
  "register sc ob = sc\<lparr>observers := observers sc @ [ob]\<rparr>"

text \<open>
  \<^verbatim>\<open>AsyncTCPScanner.__notify_all\<close> (lines 24 to 30): the loop over the observer list.
  A call that raises ends the loop; the exception leaves \<^verbatim>\<open>__notify_all\<close>.
\<close>

definition arguments :: "scanner \<Rightarrow> notification" where
  "arguments sc =
     (target_addresses sc, ports sc, scan_results sc, start_time sc, end_time sc)"

fun notify_each :: "scanner \<Rightarrow> observer list \<Rightarrow> world \<Rightarrow> exn option \<times> world" where
  "notify_each sc [] w = (None, w)"
| "notify_each sc (ob # rest) w =
     (let w' = w\<lparr>updates := updates w @ [(ob, arguments sc)]\<rparr>
      in case behaviour w ob (arguments sc) of
           Some e \<Rightarrow> (Some e, w')
         | None \<Rightarrow> notify_each sc rest w')"

definition notify_all :: "scanner \<Rightarrow> world \<Rightarrow> exn option \<times> world" where
  "notify_all sc w = notify_each sc (observers sc) w"

subsection \<open>Tasks and \<^verbatim>\<open>asyncio.gather\<close>\<close>

text \<open>
  A task is a started coroutine: the time at which it finishes and its result. All tasks
  of a scan are created before any of them runs, so their times count from the same
  instant.

  \<^verbatim>\<open>asyncio.gather(*children)\<close> with \<^verbatim>\<open>return_exceptions=False\<close>: each child
  calls \<open>done_callback\<close> when it finishes. The callback counts the finished children;
  the first child that raised settles the outer future with its exception; when the last
  child has finished, the outer future is settled with the results read off the children
  in the order they were passed in. No child ever finishing leaves the outer future
  pending for ever (\<open>Never\<close>). Children finishing at the same time call back in the
  order they were passed in.
\<close>

type_synonym 'a task = "real \<times> (exn + 'a)"

definition results :: "'a task list \<Rightarrow> 'a list" where
  "results children =
     concat (map (\<lambda>fut. case snd fut of Inr v \<Rightarrow> [v] | Inl e \<Rightarrow> []) children)"

definition done_callback ::
  "'a task list \<Rightarrow> 'a task \<Rightarrow> nat \<times> (exn + 'a list) awaitable \<Rightarrow> nat \<times> (exn + 'a list) awaitable" where
  "done_callback children fut st =
     (let nfinished = fst st + 1
      in if snd st \<noteq> Never then (nfinished, snd st)
         else case snd fut of
                Inl exc \<Rightarrow> (nfinished, Resolves (fst fut) (Inl exc))
              | Inr v \<Rightarrow>
                  if nfinished = length children
                  then (nfinished, Resolves (fst fut) (Inr (results children)))
                  else (nfinished, Never))"

definition completion_order :: "'a task list \<Rightarrow> 'a task list" where
  "completion_order children = sort_key fst children"

definition gather :: "'a task list \<Rightarrow> (exn + 'a list) awaitable" where
  "gather children =
     (if children = [] then Resolves 0 (Inr [])
      else snd (fold (done_callback children) (completion_order children) (0, Never)))"

subsection \<open>Fan-out and execution\<close>

text \<open>
  The generator expression of \<^verbatim>\<open>__scan_targets\<close> (lines 40 and 41):
  \<^verbatim>\<open>for port in self.ports for address in self.target_addresses\<close>. The inner
  iterable is iterated anew for each port, in the state the previous round left it in.
\<close>

fun for_address :: "int list \<Rightarrow> string iterable \<Rightarrow> (string \<times> int) list \<times> string iterable" where
  "for_address [] targets = ([], targets)"
| "for_address (port # rest) targets =
     (let (addresses, targets') = iterate targets;
          (more, targets'') = for_address rest targets'
      in (map (\<lambda>address. (address, port)) addresses @ more, targets''))"

definition create_task :: "world \<Rightarrow> nat \<Rightarrow> string \<times> int \<Rightarrow> probe_outcome task" where
  "create_task w k pair =
     (let run = tcp_connection (net w k (fst pair) (snd pair)) (fst pair) (snd pair)
      in (elapsed run, returned run))"

text \<open>
  \<^verbatim>\<open>AsyncTCPScanner.__scan_targets\<close> (lines 38 to 42): unpacking the generator into
  \<^verbatim>\<open>gather\<close> creates every task, which exhausts the iteration over ports and
  targets whatever the tasks do later.
\<close>

definition scan_targets ::
  "scanner \<Rightarrow> world \<Rightarrow> (exn + probe_outcome list) awaitable \<times> scanner \<times> world" where
  "scan_targets sc w =
     (let (prts, ports') = iterate (ports sc);
          (pairs, targets') = for_address prts (target_addresses sc);
          scans = map (\<lambda>(k, pair). create_task w k pair) (enumerate (dialled w) pairs)
      in (gather scans,
          sc\<lparr>target_addresses := targets', ports := ports'\<rparr>,
          w\<lparr>dialled := dialled w + length pairs\<rparr>))"

text \<open>
  \<^verbatim>\<open>AsyncTCPScanner.execute\<close> (lines 32 to 36). The result is \<open>None\<close> when
  \<^verbatim>\<open>asyncio.run\<close> never returns; otherwise the exception that leaves
  \<^verbatim>\<open>execute\<close>, if any, the engine and the world afterwards. An exception out of
  \<^verbatim>\<open>asyncio.run\<close> skips the assignments of lines 34 and 35 and the notification.
\<close>

definition execute :: "scanner \<Rightarrow> world \<Rightarrow> (exn option \<times> scanner \<times> world) option" where
  "execute sc w =
     (let (t0, w1) = time_time w;
          sc1 = sc\<lparr>start_time := Some t0\<rparr>;
          (aw, sc2, w2) = scan_targets sc1 w1
      in case aw of
           Never \<Rightarrow> None
         | Resolves d (Inl e) \<Rightarrow> Some (Some e, sc2, w2)
         | Resolves d (Inr res) \<Rightarrow>
             (let sc3 = sc2\<lparr>scan_results := Some res\<rparr>;
                  (t1, w3) = time_time w2;
                  sc4 = sc3\<lparr>end_time := Some t1\<rparr>;
                  (r, w4) = notify_all sc4 w3
              in Some (r, sc4, w4)))"

section \<open>The port-string parser\<close>

text \<open>
  \<^verbatim>\<open>int(s)\<close> on a string, base ten, for ASCII text: surrounding white space is dropped,
  one sign may lead, and the digits may be grouped by single underscores. \<open>None\<close> is
  \<^verbatim>\<open>ValueError\<close>. Digits and white space outside ASCII are not modelled.
\<close>

definition ascii_space :: "char list" where
  "ascii_space =
     [CHR 0x09, CHR 0x0A, CHR 0x0B, CHR 0x0C, CHR 0x0D, CHR '' '']"

definition strip :: "string \<Rightarrow> string" where
  "strip s =
     rev (dropWhile (\<lambda>c. c \<in> set ascii_space)
       (rev (dropWhile (\<lambda>c. c \<in> set ascii_space) s)))"

definition is_digit :: "char \<Rightarrow> bool" where
  "is_digit c = (c \<in> set ''0123456789'')"

definition digit_value :: "char \<Rightarrow> nat" where
  "digit_value c = of_char c - 48"

fun digitpart :: "nat \<Rightarrow> string \<Rightarrow> nat option" where
  "digitpart acc [] = Some acc"
| "digitpart acc [c] = (if is_digit c then Some (10 * acc + digit_value c) else None)"
| "digitpart acc (c # d # cs) =
     (if is_digit c then digitpart (10 * acc + digit_value c) (d # cs)
      else if c = CHR ''_'' \<and> is_digit d then digitpart (10 * acc + digit_value d) cs
      else None)"

definition decimal :: "string \<Rightarrow> nat option" where
  "decimal s =
     (case s of
        [] \<Rightarrow> None
      | c # cs \<Rightarrow> if is_digit c then digitpart (digit_value c) cs else None)"

definition py_int :: "string \<Rightarrow> int option" where
  "py_int s =
     (case strip s of
        [] \<Rightarrow> None
      | c # cs \<Rightarrow>
          if c = CHR ''-'' then map_option (\<lambda>n. - int n) (decimal cs)
          else if c = CHR ''+'' then map_option int (decimal cs)
          else map_option int (decimal (c # cs)))"

text \<open>\<^verbatim>\<open>s.split(sep)\<close> for a one-character separator: never an empty list.\<close>

fun str_split :: "char \<Rightarrow> string \<Rightarrow> string list" where
  "str_split sep [] = [[]]"
| "str_split sep (c # cs) =
     (if c = sep then [] # str_split sep cs
      else (c # hd (str_split sep cs)) # tl (str_split sep cs))"

text \<open>\<^verbatim>\<open>range(start, stop)\<close> as the list of its items.\<close>

definition py_range :: "int \<Rightarrow> int \<Rightarrow> int list" where
  "py_range start stop = [start..stop - 1]"

text \<open>
  One round of the loop of \<^verbatim>\<open>parse_ports\<close> (lines 89 to 93): what the round yields,
  or the \<^verbatim>\<open>ValueError\<close> that leaves it. In the \<^verbatim>\<open>except\<close> branch the unpacking
  into \<^verbatim>\<open>start, end\<close> needs exactly two pieces, each an integer; a piece that is no
  integer, too few or too many pieces all raise \<^verbatim>\<open>ValueError\<close>.
\<close>

definition parse_port :: "string \<Rightarrow> exn + int list" where
  "parse_port port =
     (case py_int port of
        Some n \<Rightarrow> Inr [n]
      | None \<Rightarrow>
          (case map py_int (str_split CHR ''-'' port) of
             [Some start, Some stop] \<Rightarrow> Inr (py_range start (stop + 1))
           | _ \<Rightarrow> Inl ValueError))"

text \<open>
  \<^verbatim>\<open>parse_ports\<close> (lines 82 to 93) is a generator; the model is what iterating it to
  the end gives: the integers yielded, and the exception that ended the iteration, if any.
\<close>

fun parse_each :: "string list \<Rightarrow> int list \<times> exn option" where
  "parse_each [] = ([], None)"
| "parse_each (port # rest) =
     (case parse_port port of
        Inl e \<Rightarrow> ([], Some e)
      | Inr ns \<Rightarrow> (let (more, r) = parse_each rest in (ns @ more, r)))"

definition parse_ports :: "string \<Rightarrow> int list \<times> exn option" where
  "parse_ports txt = parse_each (str_split CHR '','' txt)"

section \<open>Vocabulary of the properties\<close>

text \<open>
  The definitions of this section are not code of the scanner: they name what the
  properties below talk about.
\<close>

text \<open>
  A handshake escapes the probe when it fails in time with an exception that is none of
  the three suppressed classes. \<open>verdict\<close> is the port state a probe reports for a
  handshake that does not escape.
\<close>

definition escapes :: "handshake awaitable \<Rightarrow> bool" where
  "escapes h =
     (case h of
        Resolves d (Failed e) \<Rightarrow>
          d \<le> 3 \<and> \<not> suppress [ConnectionRefusedError, AsyncioTimeoutError, OSError] e
      | _ \<Rightarrow> False)"

definition verdict :: "handshake awaitable \<Rightarrow> port_state" where
  "verdict h =
     (case h of
        Resolves d Accepted \<Rightarrow> if d \<le> 3 then Open else Closed
      | _ \<Rightarrow> Closed)"

definition resolves_within :: "real \<Rightarrow> 'a awaitable \<Rightarrow> bool" where
  "resolves_within t aw = (case aw of Resolves d _ \<Rightarrow> d \<le> t | Never \<Rightarrow> False)"

text \<open>
  The (address, port) pairs of one scan in the order their tasks are created, the
  handshakes of these tasks, the tasks themselves, and the outcomes that belong to them.
\<close>

definition submitted :: "scanner \<Rightarrow> (string \<times> int) list" where
  "submitted sc = fst (for_address (fst (iterate (ports sc))) (target_addresses sc))"

definition attempts :: "scanner \<Rightarrow> world \<Rightarrow> handshake awaitable list" where
  "attempts sc w =
     map (\<lambda>(k, pair). net w k (fst pair) (snd pair)) (enumerate (dialled w) (submitted sc))"

definition tasks :: "scanner \<Rightarrow> world \<Rightarrow> probe_outcome task list" where
  "tasks sc w = map (\<lambda>(k, pair). create_task w k pair) (enumerate (dialled w) (submitted sc))"

definition outcomes :: "scanner \<Rightarrow> world \<Rightarrow> probe_outcome list" where
  "outcomes sc w =
     map (\<lambda>(k, pair). (fst pair, snd pair, verdict (net w k (fst pair) (snd pair))))
       (enumerate (dialled w) (submitted sc))"

definition contained :: "scanner \<Rightarrow> world \<Rightarrow> bool" where
  "contained sc w = list_all (\<lambda>h. \<not> escapes h) (attempts sc w)"

definition pair_of :: "probe_outcome \<Rightarrow> string \<times> int" where
  "pair_of outcome = (fst outcome, fst (snd outcome))"

text \<open>The engine after a scan all of whose probes returned.\<close>

definition scanned :: "scanner \<Rightarrow> world \<Rightarrow> scanner" where
  "scanned sc w =
     sc\<lparr>start_time := Some (clock w (reads w)),
        target_addresses := snd (for_address (fst (iterate (ports sc))) (target_addresses sc)),
        ports := snd (iterate (ports sc)),
        scan_results := Some (outcomes sc w),
        end_time := Some (clock w (Suc (reads w)))\<rparr>"

text \<open>
  A port list as the command line writes it: port numbers and dash ranges, joined by
  commas, each number in decimal digits.
\<close>

datatype port_item = Port nat | Span nat nat

fun show_nat :: "nat \<Rightarrow> string" where
  "show_nat n =
     (if n < 10 then [''0123456789'' ! n]
      else show_nat (n div 10) @ [''0123456789'' ! (n mod 10)])"

declare show_nat.simps [simp del]

fun written :: "port_item \<Rightarrow> string" where
  "written (Port n) = show_nat n"
| "written (Span a b) = show_nat a @ ''-'' @ show_nat b"

fun join :: "char \<Rightarrow> string list \<Rightarrow> string" where
  "join sep [] = []"
| "join sep [s] = s"
| "join sep (s # t # rest) = s @ sep # join sep (t # rest)"

fun expand :: "port_item \<Rightarrow> int list" where
  "expand (Port n) = [int n]"
| "expand (Span a b) = [int a..int b]"

text \<open>What an execution left in \<open>scan_results\<close>, if it returned at all.\<close>

definition stored_results :: "(exn option \<times> scanner \<times> world) option \<Rightarrow> probe_outcome list option" where
  "stored_results x = (case x of None \<Rightarrow> None | Some (r, sc, w) \<Rightarrow> scan_results sc)"

definition delivered :: "(exn option \<times> scanner \<times> world) option \<Rightarrow> (observer \<times> notification) list" where
  "delivered x = (case x of None \<Rightarrow> [] | Some (r, sc, w) \<Rightarrow> updates w)"

definition raised :: "(exn option \<times> scanner \<times> world) option \<Rightarrow> exn option" where
  "raised x = (case x of None \<Rightarrow> None | Some (r, sc, w) \<Rightarrow> r)"

subsection \<open>A small network to run the engine on\<close>

text \<open>
  A port number outside 0 to 65535 makes the connection attempt raise
  \<^verbatim>\<open>OverflowError\<close> at once, as the socket layer does for an address literal. Port 80
  accepts after one second, port 22 refuses after two, every other port is silent. The
  clock reads 100, 101, ... and nothing has happened yet.
\<close>

definition lab_net :: "nat \<Rightarrow> string \<Rightarrow> int \<Rightarrow> handshake awaitable" where
  "lab_net k host port =
     (if port < 0 \<or> 65535 < port then Resolves 0 (Failed OverflowError)
      else if port = 80 then Resolves 1 Accepted
      else if port = 22 then Resolves 2 (Failed ConnectionRefusedError)
      else Never)"

definition lab_world :: "(observer \<Rightarrow> notification \<Rightarrow> exn option) \<Rightarrow> world" where
  "lab_world b =
     \<lparr>clock = (\<lambda>n. 100 + real n), reads = 0, net = lab_net, dialled = 0, behaviour = b,
      updates = []\<rparr>"

definition quiet :: "observer \<Rightarrow> notification \<Rightarrow> exn option" where
  "quiet ob n = None"

definition moody :: "observer \<Rightarrow> notification \<Rightarrow> exn option" where
  "moody ob n = (if ob = 2 then Some ValueError else None)"

section \<open>Properties of the probe\<close>

lemma returned_tcp_connection:
  "\<not> escapes h \<Longrightarrow> returned (tcp_connection h a p) = Inr (a, p, verdict h)"
  by (auto simp: escapes_def verdict_def tcp_connection_def wait_for_def open_connection_def
        suppress_def isinstance_def split: awaitable.splits handshake.splits)

text \<open>
  Claim C2, as the code has it. Whenever the awaited connection attempt of a probe raises
  an exception that is a connection refusal, a timeout or any other \<open>OSError\<close>, the
  probe returns \<open>(address, port, closed)\<close>: it returns a value, so no exception leaves
  it. An exception of any other class is not suppressed: it leaves the probe.
\<close>

theorem probe_failure_reports_closed:
  assumes "snd (wait_for (open_connection h a p) 3) = Inl e"
  shows "returned (tcp_connection h a p) =
           (if isinstance e ConnectionRefusedError \<or> isinstance e AsyncioTimeoutError \<or>
               isinstance e OSError
            then Inr (a, p, Closed) else Inl e)"
  using assms
  by (auto simp: tcp_connection_def suppress_def split: prod.splits sum.splits)

theorem probe_failure_reports_closed_witness:
  "snd (wait_for (open_connection (Resolves 1 (Failed GaiError)) ''no.such.host'' 22) 3) =
     Inl GaiError \<and>
   isinstance GaiError OSError \<and>
   returned (tcp_connection (Resolves 1 (Failed GaiError)) ''no.such.host'' 22) =
     Inr (''no.such.host'', 22, Closed)"
proof -
  have a: "snd (wait_for (open_connection (Resolves 1 (Failed GaiError)) ''no.such.host'' 22) 3) =
             Inl GaiError"
    by (simp add: wait_for_def open_connection_def)
  have i: "isinstance GaiError OSError"
    by (simp add: isinstance_def)
  from probe_failure_reports_closed [OF a] i a show ?thesis by simp
qed

text \<open>
  Claim C2 as stated fails: the attempt to connect to port 70000 of an address literal
  raises \<open>OverflowError\<close>, a failure that is none of the three suppressed classes; it
  does not collapse to \<open>closed\<close> but leaves the probe.
\<close>

theorem probe_collapses_every_failure_counterexample:
  "lab_net 0 ''127.0.0.1'' 70000 = Resolves 0 (Failed OverflowError) \<and>
   returned (tcp_connection (lab_net 0 ''127.0.0.1'' 70000) ''127.0.0.1'' 70000) =
     Inl OverflowError"
  by (simp add: lab_net_def tcp_connection_def wait_for_def open_connection_def suppress_def
        isinstance_def)

text \<open>
  Claim C3. The probe waits for its connection attempt for 3 seconds at most, and a probe
  whose attempt has not resolved after 3 seconds (or never would) returns after exactly 3
  seconds with the state \<open>closed\<close>.
\<close>

theorem probe_times_out_closed:
  "elapsed (tcp_connection h a p) \<le> 3 \<and>
   (\<not> resolves_within 3 h \<longrightarrow>
      tcp_connection h a p = \<lparr>elapsed = 3, streams = [], returned = Inr (a, p, Closed)\<rparr>)"
  by (auto simp: tcp_connection_def suppress_def wait_for_def open_connection_def
        resolves_within_def isinstance_def
        split: prod.splits sum.splits awaitable.splits handshake.splits if_splits)

theorem probe_times_out_closed_witness:
  "\<not> resolves_within 3 (Never :: handshake awaitable) \<and>
   tcp_connection Never ''10.0.0.1'' 22 =
     \<lparr>elapsed = 3, streams = [], returned = Inr (''10.0.0.1'', 22, Closed)\<rparr> \<and>
   \<not> resolves_within 3 (Resolves 7 Accepted) \<and>
   tcp_connection (Resolves 7 Accepted) ''10.0.0.1'' 22 =
     \<lparr>elapsed = 3, streams = [], returned = Inr (''10.0.0.1'', 22, Closed)\<rparr>"
  using probe_times_out_closed [of Never "''10.0.0.1''" 22]
    probe_times_out_closed [of "Resolves 7 Accepted" "''10.0.0.1''" 22]
  by (simp add: resolves_within_def)

text \<open>
  A probe whose handshake is accepted within the 3 seconds returns the state \<open>open\<close>
  as soon as the handshake completes, having obtained the one pair for that peer.
\<close>

theorem probe_reports_open:
  assumes "h = Resolves d Accepted" and "d \<le> 3"
  shows "tcp_connection h a p =
           \<lparr>elapsed = d, streams = [\<lparr>peer_host = a, peer_port = p\<rparr>],
            returned = Inr (a, p, Open)\<rparr>"
  using assms by (simp add: tcp_connection_def wait_for_def open_connection_def)

theorem probe_reports_open_witness:
  "(1 :: real) \<le> 3 \<and>
   tcp_connection (Resolves 1 Accepted) ''127.0.0.1'' 80 =
     \<lparr>elapsed = 1, streams = [\<lparr>peer_host = ''127.0.0.1'', peer_port = 80\<rparr>],
      returned = Inr (''127.0.0.1'', 80, Open)\<rparr>"
  using probe_reports_open [of "Resolves 1 Accepted" 1 "''127.0.0.1''" 80]
  by simp

section \<open>Properties of gather\<close>

lemma results_values:
  "\<forall>fut\<in>set children. \<exists>v. snd fut = Inr v \<Longrightarrow> map Inr (results children) = map snd children"
  by (induction children) (auto simp: results_def)

lemma fold_done_callback_values:
  assumes "\<forall>fut\<in>set es. \<exists>v. snd fut = Inr v" and "k + length es \<le> length children"
  shows "fold (done_callback children) es (k, Never) =
           (k + length es,
            if es \<noteq> [] \<and> k + length es = length children
            then Resolves (fst (last es)) (Inr (results children)) else Never)"
  using assms
proof (induction es arbitrary: k)
  case Nil
  then show ?case by simp
next
  case (Cons fut es)
  obtain v where v: "snd fut = Inr v" using Cons.prems(1) by auto
  show ?case
  proof (cases "es = []")
    case True
    with v show ?thesis by (simp add: done_callback_def)
  next
    case False
    then have "Suc k \<noteq> length children" using Cons.prems(2) by (cases es) auto
    then have step: "done_callback children fut (k, Never) = (Suc k, Never)"
      using v by (simp add: done_callback_def)
    have "fold (done_callback children) es (Suc k, Never) =
            (Suc k + length es,
             if es \<noteq> [] \<and> Suc k + length es = length children
             then Resolves (fst (last es)) (Inr (results children)) else Never)"
      using Cons.prems by (intro Cons.IH) auto
    with step False show ?thesis by simp
  qed
qed

lemma gather_values:
  assumes "\<forall>fut\<in>set children. \<exists>v. snd fut = Inr v"
  shows "\<exists>d. gather children = Resolves d (Inr (results children))"
proof (cases "children = []")
  case True
  then show ?thesis by (simp add: gather_def results_def)
next
  case False
  have "fold (done_callback children) (completion_order children) (0, Never) =
          (0 + length (completion_order children),
           if completion_order children \<noteq> [] \<and> 0 + length (completion_order children) = length children
           then Resolves (fst (last (completion_order children))) (Inr (results children)) else Never)"
    using assms by (intro fold_done_callback_values) (auto simp: completion_order_def)
  moreover have "completion_order children \<noteq> []"
    using False by (metis completion_order_def length_sort length_0_conv)
  ultimately show ?thesis using False by (simp add: gather_def completion_order_def)
qed

lemma fold_done_callback_settles:
  "es \<noteq> [] \<Longrightarrow> k + length es = length children \<Longrightarrow>
     snd (fold (done_callback children) es (k, out)) \<noteq> Never"
proof (induction es arbitrary: k out)
  case Nil
  then show ?case by simp
next
  case (Cons fut es)
  show ?case
  proof (cases "es = []")
    case True
    with Cons.prems show ?thesis
      by (auto simp: done_callback_def Let_def split: sum.splits)
  next
    case False
    obtain k' out' where st: "done_callback children fut (k, out) = (k', out')"
      by (cases "done_callback children fut (k, out)")
    then have "k' = Suc k" by (auto simp: done_callback_def Let_def split: sum.splits if_splits)
    with Cons.prems have "k' + length es = length children" by simp
    from Cons.IH[OF False this] st show ?thesis by simp
  qed
qed

lemma gather_resolves: "gather children \<noteq> Never"
proof (cases "children = []")
  case True
  then show ?thesis by (simp add: gather_def)
next
  case False
  then have "completion_order children \<noteq> []"
    by (metis completion_order_def length_sort length_0_conv)
  moreover have "0 + length (completion_order children) = length children"
    by (simp add: completion_order_def)
  ultimately have "snd (fold (done_callback children) (completion_order children) (0, Never)) \<noteq> Never"
    by (rule fold_done_callback_settles)
  then show ?thesis using False by (simp add: gather_def)
qed

section \<open>Properties of the fan-out\<close>

lemma for_address_Sequence:
  "for_address prts (Sequence ts) =
     (concat (map (\<lambda>port. map (\<lambda>address. (address, port)) ts) prts), Sequence ts)"
  by (induction prts) auto

lemma for_address_Iterator:
  "for_address (port # rest) (Iterator ts) = (map (\<lambda>address. (address, port)) ts, Iterator [])"
proof -
  have "for_address rest (Iterator []) = ([], Iterator [])"
    by (induction rest) auto
  then show ?thesis by simp
qed

lemma for_address_none: "fst (iterate targets) = [] \<Longrightarrow> fst (for_address prts targets) = []"
proof (induction prts arbitrary: targets)
  case Nil
  then show ?case by simp
next
  case (Cons port rest)
  have "fst (iterate (snd (iterate targets))) = []"
    using Cons.prems by (cases targets) auto
  from Cons.IH[OF this] Cons.prems show ?case
    by (simp add: split_def)
qed

lemma scan_targets_tasks:
  "scan_targets sc w =
     (gather (tasks sc w),
      sc\<lparr>target_addresses := snd (for_address (fst (iterate (ports sc))) (target_addresses sc)),
         ports := snd (iterate (ports sc))\<rparr>,
      w\<lparr>dialled := dialled w + length (submitted sc)\<rparr>)"
  by (simp add: scan_targets_def tasks_def submitted_def split_def Let_def)

lemma tasks_contained:
  assumes "contained sc w"
  shows "map snd (tasks sc w) = map Inr (outcomes sc w)"
  using assms
  by (auto simp: contained_def attempts_def tasks_def outcomes_def create_task_def Let_def
        list_all_iff returned_tcp_connection)

lemma results_tasks:
  assumes "contained sc w"
  shows "results (tasks sc w) = outcomes sc w"
proof -
  have vals: "\<forall>fut\<in>set (tasks sc w). \<exists>v. snd fut = Inr v"
  proof
    fix fut assume "fut \<in> set (tasks sc w)"
    then have "snd fut \<in> set (map snd (tasks sc w))" by simp
    then show "\<exists>v. snd fut = Inr v" unfolding tasks_contained[OF assms] by auto
  qed
  have "map Inr (results (tasks sc w)) = (map Inr (outcomes sc w) :: (exn + probe_outcome) list)"
    using results_values[OF vals] tasks_contained[OF assms] by simp
  then show ?thesis by simp
qed

lemma gather_tasks:
  assumes "contained sc w"
  shows "\<exists>d. gather (tasks sc w) = Resolves d (Inr (outcomes sc w))"
proof -
  have vals: "\<forall>fut\<in>set (tasks sc w). \<exists>v. snd fut = Inr v"
  proof
    fix fut assume "fut \<in> set (tasks sc w)"
    then have "snd fut \<in> set (map snd (tasks sc w))" by simp
    then show "\<exists>v. snd fut = Inr v" unfolding tasks_contained[OF assms] by auto
  qed
  from gather_values[OF vals] results_tasks[OF assms] show ?thesis by simp
qed

lemma submitted_start [simp]: "submitted (sc\<lparr>start_time := t\<rparr>) = submitted sc"
  by (simp add: submitted_def)

lemma tasks_frame [simp]:
  "tasks (sc\<lparr>start_time := t\<rparr>) (w\<lparr>reads := n\<rparr>) = tasks sc w"
  by (simp add: tasks_def create_task_def)

lemma execute_contained:
  assumes "contained sc w"
  shows "execute sc w =
           Some (fst (notify_all (scanned sc w)
                        (w\<lparr>dialled := dialled w + length (submitted sc),
                           reads := Suc (Suc (reads w))\<rparr>)),
                 scanned sc w,
                 snd (notify_all (scanned sc w)
                        (w\<lparr>dialled := dialled w + length (submitted sc),
                           reads := Suc (Suc (reads w))\<rparr>)))"
proof -
  obtain d where "gather (tasks sc w) = Resolves d (Inr (outcomes sc w))"
    using gather_tasks[OF assms] by blast
  then show ?thesis
    by (simp add: execute_def time_time_def scan_targets_tasks scanned_def split_def Let_def)
qed

section \<open>Properties of notification and execution\<close>

lemma notify_each_returns:
  "\<forall>ob\<in>set obs. behaviour w ob (arguments sc) = None \<Longrightarrow>
     notify_each sc obs w = (None, w\<lparr>updates := updates w @ map (\<lambda>ob. (ob, arguments sc)) obs\<rparr>)"
  by (induction obs arbitrary: w) auto

lemma notify_each_raises:
  assumes "\<forall>ob\<in>set pre. behaviour w ob (arguments sc) = None"
    and "behaviour w ob (arguments sc) = Some e"
  shows "notify_each sc (pre @ ob # post) w =
           (Some e, w\<lparr>updates := updates w @ map (\<lambda>ob. (ob, arguments sc)) (pre @ [ob])\<rparr>)"
  using assms by (induction pre arbitrary: w) auto

lemma observers_scanned [simp]: "observers (scanned sc w) = observers sc"
  by (simp add: scanned_def)

lemma mset_for_address_Sequence:
  "mset (concat (map (\<lambda>port. map (\<lambda>address. (address, port)) ts) prts)) =
     mset (List.product ts prts)"
proof (induction ts)
  case Nil
  then show ?case by simp
next
  case (Cons t ts)
  have "mset (concat (map (\<lambda>port. map (\<lambda>address. (address, port)) (t # ts)) prts)) =
          mset (map (Pair t) prts) +
          mset (concat (map (\<lambda>port. map (\<lambda>address. (address, port)) ts) prts))"
    by (induction prts) auto
  with Cons.IH show ?case by simp
qed

lemma length_for_address_Sequence:
  "length (concat (map (\<lambda>port. map (\<lambda>address. (address, port)) ts) prts)) =
     length ts * length prts"
  by (induction prts) auto

lemma submitted_Sequence:
  "target_addresses sc = Sequence ts \<Longrightarrow> ports sc = Sequence ps \<Longrightarrow>
     submitted sc = concat (map (\<lambda>port. map (\<lambda>address. (address, port)) ts) ps)"
  by (simp add: submitted_def for_address_Sequence)

lemma pairs_outcomes: "map pair_of (outcomes sc w) = submitted sc"
proof -
  have "pair_of \<circ> (\<lambda>(k, pair). (fst pair, snd pair, verdict (net w k (fst pair) (snd pair)))) = snd"
    by (auto simp: pair_of_def fun_eq_iff)
  then show ?thesis by (simp add: outcomes_def)
qed

lemma execute_contained_ex:
  assumes "contained sc w"
  shows "\<exists>r w'. execute sc w = Some (r, scanned sc w, w')"
  using execute_contained[OF assms] by simp

lemma execute_notifies:
  assumes "contained sc w"
    and "\<forall>ob\<in>set (observers sc). behaviour w ob (arguments (scanned sc w)) = None"
  shows "\<exists>w'. execute sc w = Some (None, scanned sc w, w') \<and>
           updates w' = updates w @ map (\<lambda>ob. (ob, arguments (scanned sc w))) (observers sc)"
  using assms(2)
  by (simp add: execute_contained[OF assms(1)] notify_all_def notify_each_returns)

lemma execute_aborts_notification:
  assumes "contained sc w"
    and "observers sc = pre @ ob # post"
    and "\<forall>x\<in>set pre. behaviour w x (arguments (scanned sc w)) = None"
    and "behaviour w ob (arguments (scanned sc w)) = Some e"
  shows "\<exists>w'. execute sc w = Some (Some e, scanned sc w, w') \<and>
           updates w' = updates w @ map (\<lambda>x. (x, arguments (scanned sc w))) (pre @ [ob])"
  using assms(2-)
  by (simp add: execute_contained[OF assms(1)] notify_all_def notify_each_raises)

lemma submitted_none:
  "fst (iterate (target_addresses sc)) = [] \<or> fst (iterate (ports sc)) = [] \<Longrightarrow>
     submitted sc = []"
  by (auto simp: submitted_def for_address_none)

lemma contained_none: "submitted sc = [] \<Longrightarrow> contained sc w"
  by (simp add: contained_def attempts_def)

lemma outcomes_none: "submitted sc = [] \<Longrightarrow> outcomes sc w = []"
  by (simp add: outcomes_def)

lemma execute_returns:
  "\<exists>r sc' w'. execute sc w = Some (r, sc', w') \<and> ports sc' = snd (iterate (ports sc))"
proof (cases "gather (tasks sc w)")
  case Never
  then show ?thesis using gather_resolves by blast
next
  case (Resolves d res)
  then show ?thesis
    by (cases res)
      (simp_all add: execute_def time_time_def scan_targets_tasks split_def Let_def)
qed

section \<open>The claims about the engine\<close>

lemmas lab_defs = execute_def scan_targets_def time_time_def init_def register_def lab_world_def
  lab_net_def quiet_def moody_def gather_def completion_order_def done_callback_def results_def
  create_task_def tcp_connection_def wait_for_def open_connection_def suppress_def isinstance_def
  notify_all_def arguments_def tasks_def submitted_def sort_key_def Let_def stored_results_def
  raised_def delivered_def
  contained_def attempts_def escapes_def pair_of_def scanned_def outcomes_def
  verdict_def

lemma submitted_Iterator:
  "target_addresses sc = Iterator ts \<Longrightarrow> fst (iterate (ports sc)) = port # rest \<Longrightarrow>
     submitted sc = map (\<lambda>address. (address, port)) ts"
  by (simp add: submitted_def for_address_Iterator del: for_address.simps)

lemma execute_exhausted:
  assumes "ports sc = Iterator []"
  shows "\<exists>r sc' w'. execute sc w = Some (r, sc', w') \<and> scan_results sc' = Some []"
proof -
  have none: "submitted sc = []"
    using assms by (intro submitted_none) simp
  then have "contained sc w" by (rule contained_none)
  then obtain r w' where "execute sc w = Some (r, scanned sc w, w')"
    using execute_contained_ex by blast
  moreover have "scan_results (scanned sc w) = Some []"
    by (simp add: scanned_def outcomes_none[OF none])
  ultimately show ?thesis by blast
qed

text \<open>
  Claim C1, as the code has it. For target and port sequences, when every probe of the
  scan succeeds, times out or fails with an exception of a suppressed class,
  \<open>execute\<close> returns and stores one outcome per pair: \<open>|targets| * |ports|\<close>
  outcomes whose (target, port) pairs are, as a multiset, the Cartesian product of the
  two sequences, duplicates counted.
\<close>

theorem execute_covers_product:
  assumes "target_addresses sc = Sequence ts" and "ports sc = Sequence ps"
    and "contained sc w"
  shows "\<exists>r sc' w' res.
           execute sc w = Some (r, sc', w') \<and> scan_results sc' = Some res \<and>
           length res = length ts * length ps \<and>
           mset (map pair_of res) = mset (List.product ts ps)"
proof -
  obtain r w' where ex: "execute sc w = Some (r, scanned sc w, w')"
    using execute_contained_ex[OF assms(3)] by blast
  have res: "scan_results (scanned sc w) = Some (outcomes sc w)"
    by (simp add: scanned_def)
  have sub: "submitted sc = concat (map (\<lambda>port. map (\<lambda>address. (address, port)) ts) ps)"
    using assms(1,2) by (rule submitted_Sequence)
  have "length (outcomes sc w) = length (map pair_of (outcomes sc w))" by simp
  also have "\<dots> = length ts * length ps"
    unfolding pairs_outcomes sub by (rule length_for_address_Sequence)
  finally have len: "length (outcomes sc w) = length ts * length ps" .
  have ms: "mset (map pair_of (outcomes sc w)) = mset (List.product ts ps)"
    unfolding pairs_outcomes sub by (rule mset_for_address_Sequence)
  from ex res len ms show ?thesis by blast
qed

theorem execute_covers_product_witness:
  "contained (init (Sequence [''10.0.0.1'', ''10.0.0.1'']) (Sequence [22, 80])) (lab_world quiet) \<and>
   (\<exists>r sc' w' res.
      execute (init (Sequence [''10.0.0.1'', ''10.0.0.1'']) (Sequence [22, 80])) (lab_world quiet)
        = Some (r, sc', w') \<and>
      scan_results sc' = Some res \<and>
      length res = length [''10.0.0.1'', ''10.0.0.1''] * length [22, 80 :: int] \<and>
      mset (map pair_of res) = mset (List.product [''10.0.0.1'', ''10.0.0.1''] [22, 80]))"
proof -
  have t: "target_addresses (init (Sequence [''10.0.0.1'', ''10.0.0.1'']) (Sequence [22, 80])) =
             Sequence [''10.0.0.1'', ''10.0.0.1'']"
    by (simp add: init_def)
  have p: "ports (init (Sequence [''10.0.0.1'', ''10.0.0.1'']) (Sequence [22, 80])) = Sequence [22, 80]"
    by (simp add: init_def)
  have c: "contained (init (Sequence [''10.0.0.1'', ''10.0.0.1'']) (Sequence [22, 80])) (lab_world quiet)"
    by (simp add: lab_defs)
  from c execute_covers_product[OF t p c] show ?thesis by (rule conjI)
qed

text \<open>
  Claim C1 as stated fails: for one target and the port 70000 the probe raises
  \<open>OverflowError\<close>, which is none of the suppressed classes; it leaves \<open>execute\<close>
  and no result sequence is stored.
\<close>

theorem execute_covers_product_counterexample:
  "raised (execute (init (Sequence [''127.0.0.1'']) (Sequence [70000])) (lab_world quiet)) =
     Some OverflowError \<and>
   stored_results
     (execute (init (Sequence [''127.0.0.1'']) (Sequence [70000])) (lab_world quiet)) = None"
  by (simp add: lab_defs)

text \<open>
  Claim C5, as the code has it. The stored outcomes are the results of the tasks in the
  order the tasks were created, outer loop over the ports and inner loop over the
  targets, whatever the order in which the probes finish: \<^verbatim>\<open>gather\<close> reads the
  results off its arguments in argument order.
\<close>

theorem results_in_submission_order:
  assumes "target_addresses sc = Sequence ts" and "ports sc = Sequence ps"
    and "contained sc w"
  shows "\<exists>r sc' w' res.
           execute sc w = Some (r, sc', w') \<and> scan_results sc' = Some res \<and>
           res = results (tasks sc w) \<and>
           map pair_of res = concat (map (\<lambda>port. map (\<lambda>address. (address, port)) ts) ps)"
proof -
  obtain r w' where ex: "execute sc w = Some (r, scanned sc w, w')"
    using execute_contained_ex[OF assms(3)] by blast
  have res: "scan_results (scanned sc w) = Some (outcomes sc w)"
    by (simp add: scanned_def)
  have ord: "map pair_of (outcomes sc w) =
               concat (map (\<lambda>port. map (\<lambda>address. (address, port)) ts) ps)"
    unfolding pairs_outcomes using assms(1,2) by (rule submitted_Sequence)
  from ex res ord results_tasks[OF assms(3)] show ?thesis by auto
qed

theorem results_in_submission_order_witness:
  "contained (init (Sequence [''10.0.0.1'']) (Sequence [22, 80])) (lab_world quiet) \<and>
   (\<exists>r sc' w' res.
      execute (init (Sequence [''10.0.0.1'']) (Sequence [22, 80])) (lab_world quiet)
        = Some (r, sc', w') \<and>
      scan_results sc' = Some res \<and>
      res = results (tasks (init (Sequence [''10.0.0.1'']) (Sequence [22, 80])) (lab_world quiet)) \<and>
      map pair_of res =
        concat (map (\<lambda>port. map (\<lambda>address. (address, port)) [''10.0.0.1'']) [22, 80]))"
proof -
  have t: "target_addresses (init (Sequence [''10.0.0.1'']) (Sequence [22, 80])) =
             Sequence [''10.0.0.1'']"
    by (simp add: init_def)
  have p: "ports (init (Sequence [''10.0.0.1'']) (Sequence [22, 80])) = Sequence [22, 80]"
    by (simp add: init_def)
  have c: "contained (init (Sequence [''10.0.0.1'']) (Sequence [22, 80])) (lab_world quiet)"
    by (simp add: lab_defs)
  from c results_in_submission_order[OF t p c] show ?thesis by (rule conjI)
qed

text \<open>
  Claim C5 as stated fails: port 80 answers after one second and port 22 after two, so
  the probe of port 80 finishes first, yet the outcome of port 22 is stored first.
\<close>

theorem results_in_completion_order_counterexample:
  "stored_results (execute (init (Sequence [''10.0.0.1'']) (Sequence [22, 80])) (lab_world quiet)) =
     Some [(''10.0.0.1'', 22, Closed), (''10.0.0.1'', 80, Open)] \<and>
   results (completion_order
     (tasks (init (Sequence [''10.0.0.1'']) (Sequence [22, 80])) (lab_world quiet))) =
     [(''10.0.0.1'', 80, Open), (''10.0.0.1'', 22, Closed)] \<and>
   stored_results (execute (init (Sequence [''10.0.0.1'']) (Sequence [22, 80])) (lab_world quiet)) \<noteq>
     Some (results (completion_order
       (tasks (init (Sequence [''10.0.0.1'']) (Sequence [22, 80])) (lab_world quiet))))"
  by (simp add: lab_defs)

text \<open>
  Claim C6, as the code has it. \<open>register\<close> appends to the observer list, also an
  observer that is in it already. In an execution whose probes raise nothing outside the
  suppressed classes and whose observers do not raise, \<^verbatim>\<open>update\<close> is called once for
  each entry of the list, in list order, each call with the same five arguments: the
  targets, the ports, the results, the start time and the end time of this scan, as the
  engine holds them afterwards.
\<close>

theorem observers_notified_once_in_order:
  assumes "contained sc w"
    and "\<forall>ob\<in>set (observers sc).
           behaviour w ob
             (target_addresses (scanned sc w), ports (scanned sc w),
              scan_results (scanned sc w), start_time (scanned sc w), end_time (scanned sc w))
           = None"
  shows "observers (register sc new) = observers sc @ [new] \<and>
         (\<exists>sc' w'. execute sc w = Some (None, sc', w') \<and>
            scan_results sc' = Some (results (tasks sc w)) \<and>
            start_time sc' = Some (clock w (reads w)) \<and>
            end_time sc' = Some (clock w (Suc (reads w))) \<and>
            updates w' =
              updates w @
              map (\<lambda>ob. (ob, (target_addresses sc', ports sc', scan_results sc',
                              start_time sc', end_time sc')))
                (observers sc))"
proof -
  have q: "\<forall>ob\<in>set (observers sc). behaviour w ob (arguments (scanned sc w)) = None"
    using assms(2) by (simp add: arguments_def)
  obtain w' where ex: "execute sc w = Some (None, scanned sc w, w')"
    and up: "updates w' = updates w @ map (\<lambda>ob. (ob, arguments (scanned sc w))) (observers sc)"
    using execute_notifies[OF assms(1) q] by blast
  have f: "scan_results (scanned sc w) = Some (results (tasks sc w))"
    "start_time (scanned sc w) = Some (clock w (reads w))"
    "end_time (scanned sc w) = Some (clock w (Suc (reads w)))"
    by (simp_all add: scanned_def results_tasks[OF assms(1)])
  have r: "observers (register sc new) = observers sc @ [new]"
    by (simp add: register_def)
  from ex up f r show ?thesis
    unfolding arguments_def by blast
qed

theorem observers_notified_once_in_order_witness:
  "observers (register (register (init (Sequence [''10.0.0.1'']) (Sequence [80])) 7) 7) = [7, 7] \<and>
   (\<exists>sc' w'.
      execute (register (register (init (Sequence [''10.0.0.1'']) (Sequence [80])) 7) 7)
        (lab_world quiet) = Some (None, sc', w') \<and>
      updates w' =
        [(7, (Sequence [''10.0.0.1''], Sequence [80], Some [(''10.0.0.1'', 80, Open)],
              Some 100, Some 101)),
         (7, (Sequence [''10.0.0.1''], Sequence [80], Some [(''10.0.0.1'', 80, Open)],
              Some 100, Some 101))])"
proof -
  let ?sc = "register (init (Sequence [''10.0.0.1'']) (Sequence [80])) 7"
  let ?w = "lab_world quiet"
  have c: "contained (register ?sc 7) ?w"
    by (simp add: lab_defs)
  have q: "\<forall>ob\<in>set (observers (register ?sc 7)).
             behaviour ?w ob
               (target_addresses (scanned (register ?sc 7) ?w),
                ports (scanned (register ?sc 7) ?w),
                scan_results (scanned (register ?sc 7) ?w),
                start_time (scanned (register ?sc 7) ?w),
                end_time (scanned (register ?sc 7) ?w)) = None"
    by (simp add: lab_world_def quiet_def)
  have o: "observers (register ?sc 7) = [7, 7]"
    by (simp add: register_def init_def)
  have k: "clock ?w (reads ?w) = 100" "clock ?w (Suc (reads ?w)) = 101" "updates ?w = []"
    by (simp_all add: lab_world_def)
  have r: "results (tasks (register ?sc 7) ?w) = [(''10.0.0.1'', 80, Open)]"
    by (simp add: lab_defs)
  obtain sc' w' where ex: "execute (register ?sc 7) ?w = Some (None, sc', w')"
    and res: "scan_results sc' = Some [(''10.0.0.1'', 80, Open)]"
    and st: "start_time sc' = Some 100" and en: "end_time sc' = Some 101"
    and up: "updates w' =
               map (\<lambda>ob. (ob, (target_addresses sc', ports sc', scan_results sc',
                               start_time sc', end_time sc'))) [7, 7]"
    using observers_notified_once_in_order[OF c q, of 7] unfolding o k r by auto
  have t: "target_addresses sc' = Sequence [''10.0.0.1'']" "ports sc' = Sequence [80]"
    using ex by (auto simp: lab_defs)
  from o ex up show ?thesis
    unfolding res st en t by auto
qed

text \<open>
  Claim C6 as stated fails: with observer 7 registered and port 70000 to scan, the probe
  raises \<open>OverflowError\<close>, which leaves \<open>execute\<close> before the notification: the
  registered observer is not called in this execution.
\<close>

theorem observers_notified_every_call_counterexample:
  "observers (register (init (Sequence [''127.0.0.1'']) (Sequence [70000])) 7) = [7] \<and>
   raised (execute (register (init (Sequence [''127.0.0.1'']) (Sequence [70000])) 7)
     (lab_world quiet)) = Some OverflowError \<and>
   delivered (execute (register (init (Sequence [''127.0.0.1'']) (Sequence [70000])) 7)
     (lab_world quiet)) = []"
  by (simp add: lab_defs)

text \<open>
  Claim C7. When the observers before \<open>ob\<close> return and \<open>ob\<close> raises \<open>e\<close>, then
  \<open>e\<close> leaves \<open>execute\<close>, the observers after \<open>ob\<close> are not called, and the
  engine keeps the results and the two times this execution stored.
\<close>

theorem observer_failure_aborts_notification:
  assumes "contained sc w"
    and "observers sc = pre @ ob # post"
    and "\<forall>x\<in>set pre. behaviour w x (arguments (scanned sc w)) = None"
    and "behaviour w ob (arguments (scanned sc w)) = Some e"
  shows "\<exists>sc' w'. execute sc w = Some (Some e, sc', w') \<and>
           updates w' = updates w @ map (\<lambda>x. (x, arguments sc')) (pre @ [ob]) \<and>
           scan_results sc' = Some (results (tasks sc w)) \<and>
           start_time sc' = Some (clock w (reads w)) \<and>
           end_time sc' = Some (clock w (Suc (reads w)))"
proof -
  obtain w' where ex: "execute sc w = Some (Some e, scanned sc w, w')"
    and up: "updates w' = updates w @ map (\<lambda>x. (x, arguments (scanned sc w))) (pre @ [ob])"
    using execute_aborts_notification[OF assms] by blast
  have "scan_results (scanned sc w) = Some (results (tasks sc w))"
    "start_time (scanned sc w) = Some (clock w (reads w))"
    "end_time (scanned sc w) = Some (clock w (Suc (reads w)))"
    by (simp_all add: scanned_def results_tasks[OF assms(1)])
  with ex up show ?thesis by blast
qed

theorem observer_failure_aborts_notification_witness:
  "\<exists>sc' w'.
     execute (register (register (register (init (Sequence [''10.0.0.1'']) (Sequence [80])) 1) 2) 3)
       (lab_world moody) = Some (Some ValueError, sc', w') \<and>
     map fst (updates w') = [1, 2] \<and>
     scan_results sc' = Some [(''10.0.0.1'', 80, Open)] \<and>
     start_time sc' = Some 100 \<and> end_time sc' = Some 101"
proof -
  let ?sc = "register (register (register (init (Sequence [''10.0.0.1'']) (Sequence [80])) 1) 2) 3"
  let ?w = "lab_world moody"
  have c: "contained ?sc ?w"
    by (simp add: lab_defs)
  have o: "observers ?sc = [1] @ 2 # [3]"
    by (simp add: register_def init_def)
  have q: "\<forall>x\<in>set [1]. behaviour ?w x (arguments (scanned ?sc ?w)) = None"
    by (simp add: lab_world_def moody_def)
  have b: "behaviour ?w 2 (arguments (scanned ?sc ?w)) = Some ValueError"
    by (simp add: lab_world_def moody_def)
  have r: "results (tasks ?sc ?w) = [(''10.0.0.1'', 80, Open)]"
    by (simp add: lab_defs)
  have k: "clock ?w (reads ?w) = 100" "clock ?w (Suc (reads ?w)) = 101" "updates ?w = []"
    by (simp_all add: lab_world_def)
  from observer_failure_aborts_notification[OF c o q b] show ?thesis
    unfolding r k by (auto simp: comp_def)
qed



text \<open>
  Claim C9. The constructor stores the two iterables as given. With a single-pass iterator
  for the targets, all targets are paired with the first port and no later port gets a
  task. With a single-pass iterator for the ports, a second \<open>execute\<close> stores the empty
  result sequence.
\<close>

theorem single_pass_iterables:
  "target_addresses (init targets prts) = targets \<and> ports (init targets prts) = prts \<and>
   (target_addresses sc = Iterator ts \<longrightarrow> fst (iterate (ports sc)) = port # rest \<longrightarrow>
    contained sc w \<longrightarrow>
      (\<exists>r sc' w' res. execute sc w = Some (r, sc', w') \<and> scan_results sc' = Some res \<and>
         map pair_of res = map (\<lambda>address. (address, port)) ts)) \<and>
   (ports sc = Iterator ps \<longrightarrow>
      (\<exists>r sc' w' r'' sc'' w''. execute sc w = Some (r, sc', w') \<and>
         execute sc' w' = Some (r'', sc'', w'') \<and> scan_results sc'' = Some []))"
proof (intro conjI impI)
  show "target_addresses (init targets prts) = targets" by (simp add: init_def)
  show "ports (init targets prts) = prts" by (simp add: init_def)
next
  assume it: "target_addresses sc = Iterator ts" and ps: "fst (iterate (ports sc)) = port # rest"
    and c: "contained sc w"
  obtain r w' where ex: "execute sc w = Some (r, scanned sc w, w')"
    using execute_contained_ex[OF c] by blast
  have "scan_results (scanned sc w) = Some (outcomes sc w)" by (simp add: scanned_def)
  moreover have "map pair_of (outcomes sc w) = map (\<lambda>address. (address, port)) ts"
    unfolding pairs_outcomes using it ps by (rule submitted_Iterator)
  ultimately show "\<exists>r sc' w' res. execute sc w = Some (r, sc', w') \<and> scan_results sc' = Some res \<and>
         map pair_of res = map (\<lambda>address. (address, port)) ts"
    using ex by blast
next
  assume ps: "ports sc = Iterator ps"
  obtain r sc' w' where ex: "execute sc w = Some (r, sc', w')"
    and left: "ports sc' = snd (iterate (ports sc))"
    using execute_returns by blast
  from left ps have "ports sc' = Iterator []" by simp
  then obtain r'' sc'' w'' where "execute sc' w' = Some (r'', sc'', w'')"
    and "scan_results sc'' = Some []"
    using execute_exhausted by blast
  with ex show "\<exists>r sc' w' r'' sc'' w''. execute sc w = Some (r, sc', w') \<and>
         execute sc' w' = Some (r'', sc'', w'') \<and> scan_results sc'' = Some []"
    by blast
qed

theorem single_pass_iterables_witness:
  "(\<exists>r sc' w' res.
      execute (init (Iterator [''10.0.0.1'', ''10.0.0.2'']) (Sequence [22, 80])) (lab_world quiet)
        = Some (r, sc', w') \<and>
      scan_results sc' = Some res \<and>
      map pair_of res = [(''10.0.0.1'', 22), (''10.0.0.2'', 22)]) \<and>
   (\<exists>r sc' w' r'' sc'' w''.
      execute (init (Sequence [''10.0.0.1'']) (Iterator [22, 80])) (lab_world quiet)
        = Some (r, sc', w') \<and>
      execute sc' w' = Some (r'', sc'', w'') \<and> scan_results sc'' = Some []) \<and>
   stored_results
     (execute (init (Sequence [''10.0.0.1'']) (Iterator [22, 80])) (lab_world quiet)) =
     Some [(''10.0.0.1'', 22, Closed), (''10.0.0.1'', 80, Open)]"
proof -
  let ?a = "init (Iterator [''10.0.0.1'', ''10.0.0.2'']) (Sequence [22, 80])"
  let ?b = "init (Sequence [''10.0.0.1'']) (Iterator [22, 80])"
  let ?w = "lab_world quiet"
  have t: "target_addresses ?a = Iterator [''10.0.0.1'', ''10.0.0.2'']"
    by (simp add: init_def)
  have p: "fst (iterate (ports ?a)) = 22 # [80]"
    by (simp add: init_def)
  have c: "contained ?a ?w"
    by (simp add: lab_defs)
  have q: "ports ?b = Iterator [22, 80]"
    by (simp add: init_def)
  have s: "stored_results (execute ?b ?w) =
             Some [(''10.0.0.1'', 22, Closed), (''10.0.0.1'', 80, Open)]"
    by (simp add: lab_defs)
  from single_pass_iterables[of "Iterator [''10.0.0.1'', ''10.0.0.2'']" "Sequence [22, 80]" ?a
      "[''10.0.0.1'', ''10.0.0.2'']" 22 "[80]" ?w "[22, 80]"]
  have 1: "\<exists>r sc' w' res. execute ?a ?w = Some (r, sc', w') \<and> scan_results sc' = Some res \<and>
         map pair_of res = map (\<lambda>address. (address, 22)) [''10.0.0.1'', ''10.0.0.2'']"
    using t p c by blast
  from single_pass_iterables[of "Sequence [''10.0.0.1'']" "Iterator [22, 80]" ?b
      "[]" 0 "[]" ?w "[22, 80]"]
  have 2: "\<exists>r sc' w' r'' sc'' w''. execute ?b ?w = Some (r, sc', w') \<and>
         execute sc' w' = Some (r'', sc'', w'') \<and> scan_results sc'' = Some []"
    using q by blast
  from 1 2 s show ?thesis by simp
qed

section \<open>Properties of the parser\<close>

lemma below_ten:
  "d < 10 \<Longrightarrow> d = 0 \<or> d = 1 \<or> d = 2 \<or> d = 3 \<or> d = 4 \<or> d = 5 \<or> d = 6 \<or> d = 7 \<or> d = 8 \<or> d = (9::nat)"
  by arith

lemma digit_char:
  assumes "d < 10"
  shows "is_digit (''0123456789'' ! d)" and "digit_value (''0123456789'' ! d) = d"
  using below_ten[OF assms]
  by (auto simp: is_digit_def digit_value_def)

lemma digit_facts:
  assumes "is_digit c"
  shows "c \<notin> set ascii_space" and "c \<noteq> CHR ''-''" and "c \<noteq> CHR ''+''"
    and "c \<noteq> CHR '',''" and "c \<noteq> CHR ''_''"
  using assms by (auto simp: is_digit_def ascii_space_def)

lemma dash_facts:
  "\<not> is_digit CHR ''-''" "CHR ''-'' \<notin> set ascii_space" "CHR ''-'' \<noteq> CHR ''_''"
  by (simp_all add: is_digit_def ascii_space_def)

lemma digits_show_nat: "list_all is_digit (show_nat n)"
proof (induction n rule: show_nat.induct)
  case (1 n)
  show ?case
  proof (cases "n < 10")
    case True
    then show ?thesis
      by (subst show_nat.simps) (simp add: digit_char(1))
  next
    case False
    with 1 show ?thesis
      by (subst show_nat.simps) (simp add: digit_char(1))
  qed
qed

lemma show_nat_nonempty: "show_nat n \<noteq> []"
  by (subst show_nat.simps) simp

lemma digitpart_digits:
  "list_all is_digit s \<Longrightarrow>
     digitpart acc s = Some (foldl (\<lambda>a c. 10 * a + digit_value c) acc s)"
  by (induction acc s rule: digitpart.induct) simp_all

lemma decimal_digits:
  assumes "list_all is_digit s" and "s \<noteq> []"
  shows "decimal s = Some (foldl (\<lambda>a c. 10 * a + digit_value c) 0 s)"
proof -
  obtain c cs where s: "s = c # cs" using assms(2) by (cases s) auto
  with assms(1) have "is_digit c" "list_all is_digit cs" by simp_all
  then show ?thesis by (simp add: s decimal_def digitpart_digits)
qed

lemma value_show_nat: "foldl (\<lambda>a c. 10 * a + digit_value c) 0 (show_nat n) = n"
proof (induction n rule: show_nat.induct)
  case (1 n)
  show ?case
  proof (cases "n < 10")
    case True
    then show ?thesis by (subst show_nat.simps) (simp add: digit_char(2))
  next
    case False
    with 1 show ?thesis by (subst show_nat.simps) (simp add: digit_char(2))
  qed
qed

lemma dropWhile_none: "\<forall>c\<in>set s. \<not> P c \<Longrightarrow> dropWhile P s = s"
  by (cases s) auto

lemma strip_plain: "\<forall>c\<in>set s. c \<notin> set ascii_space \<Longrightarrow> strip s = s"
  unfolding strip_def by (simp only: dropWhile_none set_rev rev_rev_ident)

lemma py_int_unsigned:
  assumes "is_digit c" and "\<forall>x\<in>set cs. x \<notin> set ascii_space"
  shows "py_int (c # cs) = map_option int (decimal (c # cs))"
proof -
  have "\<forall>x\<in>set (c # cs). x \<notin> set ascii_space"
    using assms digit_facts(1) by simp
  then have "strip (c # cs) = c # cs" by (rule strip_plain)
  then show ?thesis
    using digit_facts(2,3)[OF assms(1)] by (simp add: py_int_def)
qed

lemma digits_no_space: "list_all is_digit s \<Longrightarrow> \<forall>x\<in>set s. x \<notin> set ascii_space"
  using digit_facts(1) by (auto simp: list_all_iff)

lemma py_int_show_nat: "py_int (show_nat n) = Some (int n)"
proof -
  obtain c cs where s: "show_nat n = c # cs"
    using show_nat_nonempty[of n] by (cases "show_nat n") auto
  have dg: "list_all is_digit (c # cs)" using digits_show_nat[of n] by (simp only: s)
  then have c: "is_digit c" and cs: "list_all is_digit cs" by simp_all
  have "decimal (c # cs) = Some n"
    using decimal_digits[OF dg] value_show_nat[of n] by (simp add: s)
  then show ?thesis
    using py_int_unsigned[OF c digits_no_space[OF cs]] by (simp add: s)
qed

lemma digitpart_dash:
  "list_all is_digit s \<Longrightarrow> digitpart acc (s @ CHR ''-'' # t) = None"
proof (induction s arbitrary: acc)
  case Nil
  then show ?case by (cases t) (simp_all add: dash_facts)
next
  case (Cons c s)
  then have c: "is_digit c" and s: "list_all is_digit s" by simp_all
  obtain d u where du: "s @ CHR ''-'' # t = d # u" by (cases s) auto
  have "digitpart acc (c # d # u) = digitpart (10 * acc + digit_value c) (d # u)"
    using c by simp
  also have "\<dots> = None" using Cons.IH[OF s] by (simp only: du)
  finally show ?case by (simp only: append_Cons du)
qed

lemma py_int_span: "py_int (show_nat a @ CHR ''-'' # show_nat b) = None"
proof -
  obtain c cs where s: "show_nat a = c # cs"
    using show_nat_nonempty[of a] by (cases "show_nat a") auto
  have dg: "list_all is_digit (c # cs)" using digits_show_nat[of a] by (simp only: s)
  then have c: "is_digit c" and cs: "list_all is_digit cs" by simp_all
  have sp: "\<forall>x\<in>set (cs @ CHR ''-'' # show_nat b). x \<notin> set ascii_space"
    using digits_no_space[OF cs] digits_no_space[OF digits_show_nat[of b]] dash_facts(2)
    by auto
  have "decimal (c # cs @ CHR ''-'' # show_nat b) = None"
    using c digitpart_dash[OF cs] by (simp add: decimal_def)
  then show ?thesis
    using py_int_unsigned[OF c sp] by (simp add: s)
qed

lemma str_split_none: "sep \<notin> set s \<Longrightarrow> str_split sep s = [s]"
  by (induction s) auto

lemma str_split_append:
  "sep \<notin> set s \<Longrightarrow> str_split sep (s @ sep # t) = s # str_split sep t"
  by (induction s) auto

lemma dash_free: "CHR ''-'' \<notin> set (show_nat n)"
  using digits_show_nat[of n] digit_facts(2) by (auto simp: list_all_iff)

lemma comma_free_show_nat: "CHR '','' \<notin> set (show_nat n)"
  using digits_show_nat[of n] digit_facts(4) by (auto simp: list_all_iff)

lemma parse_port_written: "parse_port (written item) = Inr (expand item)"
proof (cases item)
  case (Port n)
  then show ?thesis by (simp add: parse_port_def py_int_show_nat)
next
  case (Span a b)
  have "str_split CHR ''-'' (show_nat a @ CHR ''-'' # show_nat b) = [show_nat a, show_nat b]"
    by (simp add: str_split_append str_split_none dash_free)
  with Span show ?thesis
    by (simp add: parse_port_def py_int_span py_int_show_nat py_range_def)
qed

lemma parse_each_written:
  "parse_each (map written items) = (concat (map expand items), None)"
  by (induction items) (simp_all add: parse_port_written)

lemma comma_free: "CHR '','' \<notin> set (written item)"
  by (cases item) (simp_all add: comma_free_show_nat)

lemma str_split_join:
  "ss \<noteq> [] \<Longrightarrow> \<forall>s\<in>set ss. sep \<notin> set s \<Longrightarrow> str_split sep (join sep ss) = ss"
  by (induction sep ss rule: join.induct) (simp_all add: str_split_none str_split_append)

text \<open>
  Claim C8. For a non-empty list of port numbers and dash ranges written in decimal and
  joined by commas, \<open>parse_ports\<close> yields the numbers in the order written, each range
  \<open>a-b\<close> as \<open>a, a+1, ..., b\<close> with both ends, and raises nothing; the text
  \<^verbatim>\<open>20-25,53,80\<close> yields 20, 21, 22, 23, 24, 25, 53, 80.
\<close>

theorem parse_ports_expands_ranges:
  "(items \<noteq> [] \<longrightarrow>
      parse_ports (join CHR '','' (map written items)) = (concat (map expand items), None)) \<and>
   parse_ports ''20-25,53,80'' = ([20, 21, 22, 23, 24, 25, 53, 80], None)"
proof (intro conjI impI)
  assume "items \<noteq> []"
  then have "str_split CHR '','' (join CHR '','' (map written items)) = map written items"
    by (intro str_split_join) (auto simp: comma_free)
  then show "parse_ports (join CHR '','' (map written items)) = (concat (map expand items), None)"
    by (simp add: parse_ports_def parse_each_written)
next
  show "parse_ports ''20-25,53,80'' = ([20, 21, 22, 23, 24, 25, 53, 80], None)"
    by (simp add: parse_ports_def parse_port_def py_int_def decimal_def strip_def ascii_space_def
          is_digit_def digit_value_def py_range_def upto.simps)
qed

theorem parse_ports_expands_ranges_witness:
  "join CHR '','' (map written [Span 20 25, Port 53, Port 80]) = ''20-25,53,80'' \<and>
   parse_ports (join CHR '','' (map written [Span 20 25, Port 53, Port 80])) =
     (concat (map expand [Span 20 25, Port 53, Port 80]), None) \<and>
   concat (map expand [Span 20 25, Port 53, Port 80]) = [20, 21, 22, 23, 24, 25, 53, 80]"
proof -
  have ne: "[Span 20 25, Port 53, Port 80] \<noteq> []" by simp
  have j: "join CHR '','' (map written [Span 20 25, Port 53, Port 80]) = ''20-25,53,80''"
    by (simp add: show_nat.simps)
  have e: "concat (map expand [Span 20 25, Port 53, Port 80]) = [20, 21, 22, 23, 24, 25, 53, 80]"
    by (simp add: upto.simps)
  from parse_ports_expands_ranges[of "[Span 20 25, Port 53, Port 80]"] ne
  have "parse_ports (join CHR '','' (map written [Span 20 25, Port 53, Port 80])) =
     (concat (map expand [Span 20 25, Port 53, Port 80]), None)"
    by blast
  with j e show ?thesis by (intro conjI)
qed

end
